theory Spec2Isabelle
  imports Main "HOL-Library.Word"
begin

section \<open>Data model\<close>

text \<open>
  Images are arrays of rows. A grey image (the output of \<^verbatim>\<open>cv2.cvtColor\<close> and the binary
  mask) holds one \<^verbatim>\<open>uint8\<close> per pixel, a colour image a BGR triple. Coordinates are the
  integers the matcher produces (\<^verbatim>\<open>numpy.int64\<close> values, far from their bounds), modelled as
  \<^typ>\<open>int\<close>. A point is \<^verbatim>\<open>(x, y)\<close>: column first, row second.
\<close>

type_synonym point = "int \<times> int"
type_synonym box = "int \<times> int \<times> int \<times> int"
type_synonym gray_image = "8 word list list"
type_synonym color_image = "(8 word \<times> 8 word \<times> 8 word) list list"
type_synonym circle = "int \<times> int \<times> int"

text \<open>The failures of the external libraries (\<^verbatim>\<open>cv2.error\<close>, a failing text reader).\<close>

datatype error = Cv2Error | OcrError

text \<open>
  The collaborators the detector calls and does not implement:
  \<^item> \<^verbatim>\<open>cv2.cvtColor(image, COLOR_BGR2GRAY)\<close>;
  \<^item> \<^verbatim>\<open>cv2.matchTemplate(binary, template, TM_CCOEFF_NORMED) >= 0.41\<close> for the stick figure
    drawn at a given size: the Boolean array that \<^verbatim>\<open>np.where\<close> then enumerates;
  \<^item> \<^verbatim>\<open>cv2.HoughCircles\<close> on the blurred head region: \<^verbatim>\<open>None\<close>, or the circles
    \<^verbatim>\<open>np.uint16(np.around(circles[0]))\<close>;
  \<^item> \<^verbatim>\<open>easyocr.Reader(['en', 'es']).readtext\<close>: the recognised texts, in the order returned.
  Each of them may raise.
\<close>

record externals =
  cvtColor :: "color_image \<Rightarrow> error + gray_image"
  matchTemplate_ge :: "gray_image \<Rightarrow> int \<Rightarrow> error + bool list list"
  HoughCircles :: "gray_image \<Rightarrow> error + (16 word \<times> 16 word \<times> 16 word) list option"
  readtext :: "color_image \<Rightarrow> error + string list"

text \<open>The detector object after \<^verbatim>\<open>__init__\<close>: the loaded image and its shape.\<close>

record detector =
  image :: color_image
  height :: int
  width :: int

definition new_detector :: "color_image \<Rightarrow> detector" where
  "new_detector img =
     \<lparr>image = img, height = int (length img),
      width = (case img of [] \<Rightarrow> 0 | r # _ \<Rightarrow> int (length r))\<rparr>"

section \<open>Array slicing and distances\<close>

text \<open>
  \<^verbatim>\<open>a[i:j]\<close> on a sequence of length \<open>n\<close>: a negative bound counts from the end, and
  both bounds are clipped to \<open>0..n\<close>.
\<close>

definition slice_index :: "int \<Rightarrow> nat \<Rightarrow> nat" where
  "slice_index i n = (if i < 0 then nat (max 0 (i + int n)) else min (nat i) n)"

definition py_slice :: "int \<Rightarrow> int \<Rightarrow> 'a list \<Rightarrow> 'a list" where
  "py_slice i j xs =
     (let a = slice_index i (length xs); b = slice_index j (length xs)
      in take (b - a) (drop a xs))"

text \<open>\<^verbatim>\<open>img[y1:y2, x1:x2]\<close>: rows first, then the columns of each row.\<close>

definition crop :: "'a list list \<Rightarrow> int \<Rightarrow> int \<Rightarrow> int \<Rightarrow> int \<Rightarrow> 'a list list" where
  "crop img y1 y2 x1 x2 = map (py_slice x1 x2) (py_slice y1 y2 img)"

text \<open>\<^verbatim>\<open>roi.size\<close>, up to the constant number of channels: the number of pixels.\<close>

definition roi_size :: "'a list list \<Rightarrow> nat" where
  "roi_size roi = sum_list (map length roi)"

text \<open>
  \<^verbatim>\<open>math.dist(a, b) > r\<close> for integer points and an integer radius. The square root is
  not modelled: the comparison is decided on the squared distance, which is exact here.
\<close>

definition dist_gt :: "point \<Rightarrow> point \<Rightarrow> int \<Rightarrow> bool" where
  "dist_gt a b r = ((fst a - fst b)\<^sup>2 + (snd a - snd b)\<^sup>2 > r\<^sup>2)"

section \<open>Preprocess\<close>

text \<open>
  \<^verbatim>\<open>np.mean(gray) > 127\<close>, decided on the pixel sum; the mean of an empty array is
  \<^verbatim>\<open>nan\<close>, and the comparison is false.
\<close>

definition mean_gt_127 :: "gray_image \<Rightarrow> bool" where
  "mean_gt_127 gray =
     (sum_list (map unat (concat gray)) > 127 * length (concat gray))"

definition invert :: "gray_image \<Rightarrow> gray_image" where
  "invert gray = map (map (\<lambda>p. 255 - p)) gray"

definition threshold_binary :: "gray_image \<Rightarrow> gray_image" where
  "threshold_binary gray = map (map (\<lambda>p. if p > 50 then 255 else 0)) gray"

definition binarize :: "gray_image \<Rightarrow> gray_image" where
  "binarize gray = threshold_binary (if mean_gt_127 gray then invert gray else gray)"

definition preprocess :: "externals \<Rightarrow> detector \<Rightarrow> error + gray_image" where
  "preprocess ext d =
     (case cvtColor ext (image d) of
        Inl e \<Rightarrow> Inl e
      | Inr gray \<Rightarrow> Inr (binarize gray))"

section \<open>Template detection\<close>

text \<open>
  \<^verbatim>\<open>zip(*np.where(hits)[::-1])\<close>: the true cells of the array in raster order (row by
  row, left to right), each as \<^verbatim>\<open>(column, row)\<close>.
\<close>

fun where_row :: "int \<Rightarrow> int \<Rightarrow> bool list \<Rightarrow> point list" where
  "where_row r c [] = []"
| "where_row r c (b # bs) = (if b then [(c, r)] else []) @ where_row r (c + 1) bs"

fun where_rows :: "int \<Rightarrow> bool list list \<Rightarrow> point list" where
  "where_rows r [] = []"
| "where_rows r (row # rows) = where_row r 0 row @ where_rows (r + 1) rows"

definition np_where :: "bool list list \<Rightarrow> point list" where
  "np_where hits = where_rows 0 hits"

text \<open>The inner loop over the match locations of one template size.\<close>

fun add_matches :: "int \<Rightarrow> point list \<Rightarrow> point list \<Rightarrow> point list" where
  "add_matches tsize [] actors = actors"
| "add_matches tsize (pt # pts) actors =
     (let center = (fst pt + tsize div 2, snd pt + tsize div 2)
      in add_matches tsize pts
           (if list_all (\<lambda>a. dist_gt center a 15) actors then actors @ [center] else actors))"

text \<open>The outer loop over the template sizes; a failing \<^verbatim>\<open>matchTemplate\<close> ends the run.\<close>

fun template_loop :: "externals \<Rightarrow> gray_image \<Rightarrow> int list \<Rightarrow> point list \<Rightarrow> error + point list" where
  "template_loop ext binary [] actors = Inr actors"
| "template_loop ext binary (tsize # sizes) actors =
     (case matchTemplate_ge ext binary tsize of
        Inl e \<Rightarrow> Inl e
      | Inr hits \<Rightarrow> template_loop ext binary sizes (add_matches tsize (np_where hits) actors))"

definition template_sizes :: "int list" where
  "template_sizes = [40, 50, 60, 70, 80]"

definition find_actors_by_template :: "externals \<Rightarrow> gray_image \<Rightarrow> error + point list" where
  "find_actors_by_template ext binary = template_loop ext binary template_sizes []"

section \<open>Head detection\<close>

text \<open>The head region above the actor: \<^verbatim>\<open>(x1, y1, x2, y2)\<close>.\<close>

definition head_box :: "detector \<Rightarrow> point \<Rightarrow> int \<Rightarrow> int \<Rightarrow> box" where
  "head_box d actor_pos search_height search_width =
     (let x = fst actor_pos; y = snd actor_pos
      in (max 0 (x - search_width div 2), max 0 (y - search_height),
          min (width d) (x + search_width div 2), y))"

text \<open>
  The circles in image coordinates, then those above the actor and within 25 px of its
  column.
\<close>

definition circles_abs :: "point \<Rightarrow> int \<Rightarrow> int \<Rightarrow> (16 word \<times> 16 word \<times> 16 word) list \<Rightarrow> circle list" where
  "circles_abs actor_pos x1 y1 circles =
     filter (\<lambda>(cx, cy, r). cy < snd actor_pos \<and> \<bar>cx - fst actor_pos\<bar> < 25)
            (map (\<lambda>(cx, cy, r). (x1 + uint cx, y1 + uint cy, uint r)) circles)"

text \<open>
  \<^verbatim>\<open>min(cs, key=...)\<close> on a non-empty list: the running best is replaced only by a
  strictly smaller key.
\<close>

fun min_key :: "('a \<Rightarrow> int) \<Rightarrow> 'a \<Rightarrow> 'a list \<Rightarrow> 'a" where
  "min_key key best [] = best"
| "min_key key best (c # cs) = min_key key (if key c < key best then c else best) cs"

definition verify_head_circle ::
  "externals \<Rightarrow> detector \<Rightarrow> gray_image \<Rightarrow> point \<Rightarrow> int \<Rightarrow> int \<Rightarrow> error + (bool \<times> circle option \<times> box)" where
  "verify_head_circle ext d binary actor_pos search_height search_width =
     (case head_box d actor_pos search_height search_width of (x1, y1, x2, y2) \<Rightarrow>
        let roi = crop binary y1 y2 x1 x2
        in if roi_size roi = 0 then Inr (False, None, (x1, y1, x2, y2))
           else (case HoughCircles ext roi of
                   Inl e \<Rightarrow> Inl e
                 | Inr None \<Rightarrow> Inr (False, None, (x1, y1, x2, y2))
                 | Inr (Some circles) \<Rightarrow>
                     (case circles_abs actor_pos x1 y1 circles of
                        [] \<Rightarrow> Inr (False, None, (x1, y1, x2, y2))
                      | c # cs \<Rightarrow>
                          Inr (True, Some (min_key (\<lambda>c. \<bar>fst c - fst actor_pos\<bar>) c cs),
                               (x1, y1, x2, y2)))))"

section \<open>Text below the actor\<close>

text \<open>\<^verbatim>\<open>str.isspace\<close> on the code points below 256.\<close>

definition is_space :: "char \<Rightarrow> bool" where
  "is_space c =
     (let n = (of_char c :: nat)
      in (9 \<le> n \<and> n \<le> 13) \<or> (28 \<le> n \<and> n \<le> 32) \<or> n = 133 \<or> n = 160)"

definition strip :: "string \<Rightarrow> string" where
  "strip s = rev (dropWhile is_space (rev (dropWhile is_space s)))"

fun join :: "string \<Rightarrow> string list \<Rightarrow> string" where
  "join sep [] = []"
| "join sep [s] = s"
| "join sep (s # t # ts) = s @ sep @ join sep (t # ts)"

definition text_box :: "detector \<Rightarrow> point \<Rightarrow> box" where
  "text_box d actor_pos =
     (let x = fst actor_pos; y = snd actor_pos; roi_h = 80; roi_w = 160
      in (max 0 (x - roi_w div 2), y + 10, min (width d) (x + roi_w div 2),
          min (height d) (y + roi_h)))"

definition extract_text_below :: "externals \<Rightarrow> detector \<Rightarrow> point \<Rightarrow> error + (string \<times> box option)" where
  "extract_text_below ext d actor_pos =
     (case text_box d actor_pos of (x1, y1, x2, y2) \<Rightarrow>
        let roi = crop (image d) y1 y2 x1 x2
        in if roi_size roi = 0 then Inr ('''', None)
           else (case readtext ext roi of
                   Inl e \<Rightarrow> Inl e
                 | Inr result \<Rightarrow> Inr (strip (join '' '' result), Some (x1, y1, x2, y2))))"

section \<open>Main detection pipeline\<close>

text \<open>
  The loop \<^verbatim>\<open>for idx, actor_pos in enumerate(actors)\<close>, with the lists \<^verbatim>\<open>verified\<close>
  and \<^verbatim>\<open>text_results\<close> it appends to. The head search uses the default region, 35 px
  high and 50 px wide. (\<^verbatim>\<open>debug_info\<close> only feeds the overlay drawing.)
\<close>

fun verify_loop ::
  "externals \<Rightarrow> detector \<Rightarrow> gray_image \<Rightarrow> int \<Rightarrow> point list \<Rightarrow> point list \<Rightarrow> (int \<times> string) list
     \<Rightarrow> error + (point list \<times> (int \<times> string) list)" where
  "verify_loop ext d binary idx [] verified text_results = Inr (verified, text_results)"
| "verify_loop ext d binary idx (actor_pos # rest) verified text_results =
     (case verify_head_circle ext d binary actor_pos 35 50 of
        Inl e \<Rightarrow> Inl e
      | Inr (ok, circle, roi_box) \<Rightarrow>
          if ok then
            (case extract_text_below ext d actor_pos of
               Inl e \<Rightarrow> Inl e
             | Inr (text, text_roi) \<Rightarrow>
                 verify_loop ext d binary (idx + 1) rest (verified @ [actor_pos])
                   (text_results @ [(idx + 1, text)]))
          else verify_loop ext d binary (idx + 1) rest verified (text_results @ [(idx + 1, '''')]))"

text \<open>Remove near duplicates: the loop over \<^verbatim>\<open>verified\<close> that fills \<^verbatim>\<open>final_actors\<close>.\<close>

fun dedup_loop :: "point list \<Rightarrow> point list \<Rightarrow> point list" where
  "dedup_loop [] final_actors = final_actors"
| "dedup_loop (a # rest) final_actors =
     dedup_loop rest
       (if list_all (\<lambda>b. dist_gt a b 25) final_actors then final_actors @ [a] else final_actors)"

definition remove_near_duplicates :: "point list \<Rightarrow> point list" where
  "remove_near_duplicates verified = dedup_loop verified []"

text \<open>
  \<^verbatim>\<open>detect_actors\<close> returns \<^verbatim>\<open>(len(final_actors), final_actors, text_results)\<close>. The
  overlay drawn before the return is written to a file and changes none of the three.
\<close>

definition detect_actors ::
  "externals \<Rightarrow> detector \<Rightarrow> error + (int \<times> point list \<times> (int \<times> string) list)" where
  "detect_actors ext d =
     (case preprocess ext d of
        Inl e \<Rightarrow> Inl e
      | Inr binary \<Rightarrow>
          (case find_actors_by_template ext binary of
             Inl e \<Rightarrow> Inl e
           | Inr actors \<Rightarrow>
               (case verify_loop ext d binary 0 actors [] [] of
                  Inl e \<Rightarrow> Inl e
                | Inr (verified, text_results) \<Rightarrow>
                    let final_actors = remove_near_duplicates verified
                    in Inr (int (length final_actors), final_actors, text_results))))"

section \<open>Filtering and renumbering for the reports\<close>

record stats =
  total_detected :: int
  with_names :: int
  without_names :: int
  filtered_list :: "(int \<times> string) list"

text \<open>\<^verbatim>\<open>enumerate(xs, start=n)\<close>.\<close>

fun enumerate_from :: "int \<Rightarrow> 'a list \<Rightarrow> (int \<times> 'a) list" where
  "enumerate_from n [] = []"
| "enumerate_from n (x # xs) = (n, x) # enumerate_from (n + 1) xs"

definition filter_and_renumber_actors :: "(int \<times> string) list \<Rightarrow> (int \<times> string) list \<times> stats" where
  "filter_and_renumber_actors actors_list =
     (let filtered = map (\<lambda>(actor_id, name). (actor_id, strip name))
                         (filter (\<lambda>(actor_id, name). name \<noteq> [] \<and> strip name \<noteq> []) actors_list);
          renumbered = map (\<lambda>(new_id, (old_id, name)). (new_id, name)) (enumerate_from 1 filtered)
      in (renumbered,
          \<lparr>total_detected = int (length actors_list),
           with_names = int (length filtered),
           without_names = int (length actors_list) - int (length filtered),
           filtered_list = renumbered\<rparr>))"

text \<open>
  The \<^verbatim>\<open>statistics\<close> object of the JSON answer of \<^verbatim>\<open>main.py\<close>: the three counts of the
  filter and \<^verbatim>\<open>in_final_report = len(filtered_actors)\<close>.
\<close>

record statistics =
  stat_total_detected :: int
  stat_with_names :: int
  stat_without_names :: int
  in_final_report :: int

definition json_statistics :: "(int \<times> string) list \<Rightarrow> (int \<times> string) list \<times> statistics" where
  "json_statistics actors_list =
     (case filter_and_renumber_actors actors_list of (filtered_actors, st) \<Rightarrow>
        (filtered_actors,
         \<lparr>stat_total_detected = total_detected st,
          stat_with_names = with_names st,
          stat_without_names = without_names st,
          in_final_report = int (length filtered_actors)\<rparr>))"

section \<open>Notions used in the properties\<close>

text \<open>
  A list of points in which every point is farther than \<open>r\<close> from all the points after
  it (and so, the distance being symmetric, from all others).
\<close>

fun far_apart :: "int \<Rightarrow> point list \<Rightarrow> bool" where
  "far_apart r [] = True"
| "far_apart r (a # as) = (list_all (\<lambda>b. dist_gt a b r) as \<and> far_apart r as)"

text \<open>A head-confirmed candidate: the head check of the pipeline returns \<^verbatim>\<open>ok = True\<close>.\<close>

definition confirmed :: "externals \<Rightarrow> detector \<Rightarrow> gray_image \<Rightarrow> point \<Rightarrow> bool" where
  "confirmed ext d binary p =
     (case verify_head_circle ext d binary p 35 50 of
        Inl e \<Rightarrow> False
      | Inr (ok, circle, roi_box) \<Rightarrow> ok)"

text \<open>The caption the pipeline records for a candidate.\<close>

definition caption :: "externals \<Rightarrow> detector \<Rightarrow> gray_image \<Rightarrow> point \<Rightarrow> string" where
  "caption ext d binary p =
     (if confirmed ext d binary p
      then (case extract_text_below ext d p of Inl e \<Rightarrow> '''' | Inr (text, text_roi) \<Rightarrow> text)
      else '''')"

text \<open>A mask with every pixel 0 or 255.\<close>

definition is_binary_mask :: "gray_image \<Rightarrow> bool" where
  "is_binary_mask m = list_all (list_all (\<lambda>p. p = 0 \<or> p = 255)) m"

text \<open>
  The specification's reading of the raw records, in its own words: one record per
  candidate retained by the duplicate removal, with ids from 1 in retention order.
\<close>

definition spec_records_follow_dedup :: "point list \<Rightarrow> (int \<times> string) list \<Rightarrow> bool" where
  "spec_records_follow_dedup final_actors text_results =
     (map fst text_results = map fst (enumerate_from 1 final_actors))"

text \<open>The caption region cropped from the colour image for a candidate.\<close>

definition caption_crop :: "detector \<Rightarrow> point \<Rightarrow> color_image" where
  "caption_crop d p = (case text_box d p of (x1, y1, x2, y2) \<Rightarrow> crop (image d) y1 y2 x1 x2)"

text \<open>
  The acceptance rule of the matcher in the specification's words: a glyph centre joins
  the accepted candidates only if it is farther than 15 px from every one of them.
\<close>

definition spec_accept :: "point list \<Rightarrow> point \<Rightarrow> point list" where
  "spec_accept accepted c =
     (if \<forall>a\<in>set accepted. dist_gt c a 15 then accepted @ [c] else accepted)"

text \<open>The glyph centres of the match locations of one template size, in raster order.\<close>

definition centers :: "int \<Rightarrow> bool list list \<Rightarrow> point list" where
  "centers tsize hits = map (\<lambda>pt. (fst pt + tsize div 2, snd pt + tsize div 2)) (np_where hits)"

text \<open>Raster order on points \<^verbatim>\<open>(x, y)\<close>: an earlier row, or the same row and an earlier column.\<close>

definition raster_before :: "point \<Rightarrow> point \<Rightarrow> bool" where
  "raster_before a b = (snd a < snd b \<or> (snd a = snd b \<and> fst a < fst b))"

section \<open>A worked run\<close>

text \<open>
  An 80 by 80 white image. The matcher reports four locations for the 40 px template
  and none for the larger ones; the circle detector finds a head in every region that
  is 35 rows high; the text reader reads \<^verbatim>\<open>User\<close>.
\<close>

definition ex_image :: color_image where
  "ex_image = replicate 80 (replicate 80 (255, 255, 255))"

definition ex_detector :: detector where
  "ex_detector = new_detector ex_image"

definition ex_hits :: "bool list list" where
  "ex_hits =
     [replicate 40 False @ [True]] @ replicate 19 (replicate 41 False)
     @ [[True] @ replicate 19 False @ [True] @ replicate 19 False @ [True]]
     @ replicate 20 (replicate 41 False)"

definition ex_externals :: externals where
  "ex_externals =
     \<lparr>cvtColor = (\<lambda>img. Inr (map (map (\<lambda>(b, g, r). g)) img)),
      matchTemplate_ge = (\<lambda>binary tsize.
         Inr (if tsize = 40 then ex_hits
              else replicate (nat (81 - tsize)) (replicate (nat (81 - tsize)) False))),
      HoughCircles = (\<lambda>roi. Inr (if length roi = 35 then Some [(20, 10, 8)] else None)),
      readtext = (\<lambda>roi. Inr [''User''])\<rparr>"

text \<open>A circle detector that reports four circles, for the head check alone.\<close>

definition ex_circles :: externals where
  "ex_circles =
     ex_externals\<lparr>HoughCircles := (\<lambda>roi. Inr (Some [(0, 3, 5), (30, 10, 8), (28, 12, 6), (22, 5, 7)]))\<rparr>"

text \<open>What the run returns besides the count 2.\<close>

definition ex_final_actors :: "point list" where
  "ex_final_actors = [(20, 40), (60, 40)]"

definition ex_text_results :: "(int \<times> string) list" where
  "ex_text_results = [(1, ''''), (2, ''User''), (3, ''User''), (4, ''User'')]"

section \<open>Properties\<close>


subsection \<open>Distances and the greedy duplicate removal\<close>

lemma dist_gt_sym: "dist_gt a b r = dist_gt b a r"
  by (simp add: dist_gt_def power2_commute)

lemma far_apart_append:
  "far_apart r (xs @ ys) =
     (far_apart r xs \<and> far_apart r ys \<and> list_all (\<lambda>a. list_all (\<lambda>b. dist_gt a b r) ys) xs)"
  by (induction xs) (auto simp: list_all_iff)

lemma far_apart_snoc:
  "far_apart r (xs @ [a]) = (far_apart r xs \<and> list_all (\<lambda>b. dist_gt a b r) xs)"
  by (auto simp: far_apart_append list_all_iff dist_gt_sym [of a])

lemma far_apart_distinct: "far_apart r xs \<Longrightarrow> 0 \<le> r \<Longrightarrow> distinct xs"
  by (induction xs) (auto simp: list_all_iff dist_gt_def)

lemma far_apart_pairwise:
  "far_apart r xs \<Longrightarrow> a \<in> set xs \<Longrightarrow> b \<in> set xs \<Longrightarrow> a \<noteq> b \<Longrightarrow> dist_gt a b r"
  by (induction xs) (auto simp: list_all_iff dest: dist_gt_sym [THEN iffD1])

lemma dedup_loop_far_apart:
  "far_apart 25 acc \<Longrightarrow> far_apart 25 (dedup_loop xs acc)"
  by (induction xs arbitrary: acc) (simp_all add: far_apart_snoc)

lemma dedup_loop_fixed:
  "far_apart 25 (acc @ xs) \<Longrightarrow> dedup_loop xs acc = acc @ xs"
proof (induction xs arbitrary: acc)
  case Nil
  then show ?case by simp
next
  case (Cons a rest)
  from Cons.prems have far: "far_apart 25 ((acc @ [a]) @ rest)" by simp
  then have "far_apart 25 (acc @ [a])" by (simp only: far_apart_append)
  then have "list_all (\<lambda>b. dist_gt a b 25) acc" by (simp add: far_apart_snoc)
  with Cons.IH [OF far] show ?case by simp
qed

lemma dedup_loop_subset: "set (dedup_loop xs acc) \<subseteq> set acc \<union> set xs"
proof (induction xs arbitrary: acc)
  case Nil
  show ?case by simp
next
  case (Cons a xs)
  show ?case using Cons.IH [of "acc @ [a]"] Cons.IH [of acc] by auto
qed

lemma remove_near_duplicates_far_apart: "far_apart 25 (remove_near_duplicates verified)"
  unfolding remove_near_duplicates_def by (rule dedup_loop_far_apart) simp

lemma remove_near_duplicates_subset: "set (remove_near_duplicates verified) \<subseteq> set verified"
  using dedup_loop_subset [of verified "[]"] by (simp add: remove_near_duplicates_def)

text \<open>
  C8. The 25 px duplicate removal is a fixed point on its own output: applied to the
  list it produced, it returns that list unchanged.
\<close>

theorem remove_near_duplicates_idem:
  "remove_near_duplicates (remove_near_duplicates verified) = remove_near_duplicates verified"
proof -
  have "far_apart 25 ([] @ remove_near_duplicates verified)"
    by (simp add: remove_near_duplicates_far_apart)
  then have "dedup_loop (remove_near_duplicates verified) [] = [] @ remove_near_duplicates verified"
    by (rule dedup_loop_fixed)
  then show ?thesis by (simp add: remove_near_duplicates_def)
qed

theorem remove_near_duplicates_idem_witness:
  "remove_near_duplicates (remove_near_duplicates [(0, 0), (10, 0), (100, 0), (30, 0)])
     = [(0, 0), (100, 0), (30, 0)]"
  using remove_near_duplicates_idem [of "[(0, 0), (10, 0), (100, 0), (30, 0)]"]
  by (simp add: remove_near_duplicates_def dist_gt_def)

subsection \<open>Filtering and renumbering\<close>

text \<open>
  C3. On the input \<^verbatim>\<open>[(1,"Alice"),(2,""),(3,"  "),(4,"Bob")]\<close> the filter returns
  \<^verbatim>\<open>[(1,"Alice"),(2,"Bob")]\<close> with \<^verbatim>\<open>total_detected = 4\<close>, \<^verbatim>\<open>with_names = 2\<close>,
  \<^verbatim>\<open>without_names = 2\<close>, and the final count reported by the service is 2.
\<close>

theorem filter_and_renumber_example:
  "filter_and_renumber_actors [(1, ''Alice''), (2, ''''), (3, ''  ''), (4, ''Bob'')] =
     ([(1, ''Alice''), (2, ''Bob'')],
      \<lparr>total_detected = 4, with_names = 2, without_names = 2,
       filtered_list = [(1, ''Alice''), (2, ''Bob'')]\<rparr>)
   \<and> json_statistics [(1, ''Alice''), (2, ''''), (3, ''  ''), (4, ''Bob'')] =
     ([(1, ''Alice''), (2, ''Bob'')],
      \<lparr>stat_total_detected = 4, stat_with_names = 2, stat_without_names = 2,
       in_final_report = 2\<rparr>)"
  by (simp add: json_statistics_def filter_and_renumber_actors_def strip_def is_space_def Let_def)


subsection \<open>The loops of the pipeline\<close>

lemma length_enumerate_from: "length (enumerate_from n xs) = length xs"
  by (induction xs arbitrary: n) simp_all

lemma map_fst_enumerate_from:
  "map fst (enumerate_from n xs) = map (\<lambda>i. n + int i) [0..<length xs]"
proof (induction xs arbitrary: n)
  case Nil
  show ?case by simp
next
  case (Cons x xs)
  have "[0..<length (x # xs)] = 0 # map Suc [0..<length xs]"
    by (simp add: upt_conv_Cons map_Suc_upt del: upt_Suc)
  then show ?case by (simp add: Cons.IH comp_def add.assoc)
qed

lemma nth_enumerate_from: "i < length xs \<Longrightarrow> enumerate_from n xs ! i = (n + int i, xs ! i)"
proof (induction xs arbitrary: n i)
  case Nil
  then show ?case by simp
next
  case (Cons x xs)
  then show ?case by (cases i) (simp_all add: add.assoc)
qed

lemma verify_loop_result:
  "verify_loop ext d binary idx actors verified text_results = Inr (v, t) \<Longrightarrow>
     v = verified @ filter (confirmed ext d binary) actors \<and>
     t = text_results @ map (\<lambda>(i, p). (i, caption ext d binary p)) (enumerate_from (idx + 1) actors)"
proof (induction actors arbitrary: idx verified text_results)
  case Nil
  then show ?case by simp
next
  case (Cons p rest)
  show ?case
  proof (cases "verify_head_circle ext d binary p 35 50")
    case (Inl e)
    with Cons.prems show ?thesis by simp
  next
    case (Inr res)
    note vh = Inr
    obtain ok circle roi_box where res: "res = (ok, circle, roi_box)" by (cases res)
    show ?thesis
    proof (cases ok)
      case True
      then have conf: "confirmed ext d binary p" by (simp add: confirmed_def Inr res)
      show ?thesis
      proof (cases "extract_text_below ext d p")
        case (Inl e)
        with Cons.prems vh res True show ?thesis by simp
      next
        case (Inr tr)
        obtain cap text_roi where tr: "tr = (cap, text_roi)" by (cases tr)
        from Cons.prems have
          "verify_loop ext d binary (idx + 1) rest (verified @ [p]) (text_results @ [(idx + 1, cap)]) = Inr (v, t)"
          by (simp add: vh res True Inr tr)
        from Cons.IH [OF this] show ?thesis
          by (simp add: conf caption_def Inr tr)
      qed
    next
      case False
      then have conf: "\<not> confirmed ext d binary p" by (simp add: confirmed_def Inr res)
      from Cons.prems have
        "verify_loop ext d binary (idx + 1) rest verified (text_results @ [(idx + 1, '''')]) = Inr (v, t)"
        by (simp add: Inr res False)
      from Cons.IH [OF this] show ?thesis
        by (simp add: conf caption_def)
    qed
  qed
qed

lemma detect_actors_result:
  assumes "detect_actors ext d = Inr (n, final_actors, text_results)"
  shows "\<exists>binary actors.
           preprocess ext d = Inr binary \<and> find_actors_by_template ext binary = Inr actors \<and>
           (\<exists>v t. verify_loop ext d binary 0 actors [] [] = Inr (v, t)) \<and>
           final_actors = remove_near_duplicates (filter (confirmed ext d binary) actors) \<and>
           n = int (length final_actors) \<and>
           text_results = map (\<lambda>(i, p). (i, caption ext d binary p)) (enumerate_from 1 actors)"
proof -
  from assms obtain binary where b: "preprocess ext d = Inr binary"
    by (cases "preprocess ext d") (simp_all add: detect_actors_def)
  from assms b obtain actors where a: "find_actors_by_template ext binary = Inr actors"
    by (cases "find_actors_by_template ext binary") (simp_all add: detect_actors_def)
  from assms b a obtain v t where l: "verify_loop ext d binary 0 actors [] [] = Inr (v, t)"
    by (cases "verify_loop ext d binary 0 actors [] []") (auto simp: detect_actors_def)
  from verify_loop_result [OF l] have vt:
    "v = filter (confirmed ext d binary) actors"
    "t = map (\<lambda>(i, p). (i, caption ext d binary p)) (enumerate_from 1 actors)"
    by simp_all
  from assms b a l have "n = int (length final_actors)" "final_actors = remove_near_duplicates v" "text_results = t"
    by (auto simp: detect_actors_def Let_def)
  with b a vt l show ?thesis by blast
qed


subsection \<open>Evaluating the worked run\<close>

lemma where_row_append:
  "where_row r c (xs @ ys) = where_row r c xs @ where_row r (c + int (length xs)) ys"
  by (induction xs arbitrary: c) (simp_all add: add.assoc)

lemma where_row_replicate_False: "where_row r c (replicate n False) = []"
  by (induction n arbitrary: c) simp_all

lemma where_rows_append:
  "where_rows r (xs @ ys) = where_rows r xs @ where_rows (r + int (length xs)) ys"
  by (induction xs arbitrary: r) (simp_all add: add.assoc)

lemma where_rows_replicate_False: "where_rows r (replicate n (replicate m False)) = []"
  by (induction n arbitrary: r) (simp_all add: where_row_replicate_False)

lemma np_where_ex_hits: "np_where ex_hits = [(40, 0), (0, 20), (20, 20), (40, 20)]"
  by (simp add: np_where_def ex_hits_def where_rows_append where_row_append
      where_rows_replicate_False where_row_replicate_False)

lemma np_where_no_hits: "np_where (replicate n (replicate m False)) = []"
  by (simp add: np_where_def where_rows_replicate_False)

lemma np_where_single_False: "np_where [[False]] = []"
  by (simp add: np_where_def)

lemma find_actors_ex:
  "find_actors_by_template ex_externals binary = Inr [(60, 20), (20, 40), (40, 40), (60, 40)]"
  by (simp add: find_actors_by_template_def template_sizes_def ex_externals_def
      np_where_ex_hits np_where_no_hits np_where_single_False dist_gt_def)

lemma concat_replicate_replicate: "concat (replicate h (replicate w p)) = replicate (h * w) p"
  by (induction h) (simp_all add: replicate_add)

lemma mean_gt_127_replicate:
  "mean_gt_127 (replicate h (replicate w p)) = (0 < h * w \<and> 127 < unat p)"
  by (simp add: mean_gt_127_def concat_replicate_replicate sum_list_replicate)

lemma binarize_white: "binarize (replicate 80 (replicate 80 255)) = replicate 80 (replicate 80 0)"
  by (simp add: binarize_def mean_gt_127_replicate invert_def threshold_binary_def)

lemma new_detector_replicate:
  "0 < h \<Longrightarrow> new_detector (replicate h (replicate w p)) =
     \<lparr>image = replicate h (replicate w p), height = int h, width = int w\<rparr>"
  by (cases h) (simp_all add: new_detector_def)

lemma ex_detector_simps: "width ex_detector = 80" "height ex_detector = 80"
  "image ex_detector = replicate 80 (replicate 80 (255, 255, 255))"
  by (simp_all add: ex_detector_def ex_image_def new_detector_replicate)

lemma preprocess_ex: "preprocess ex_externals ex_detector = Inr (replicate 80 (replicate 80 0))"
  by (simp add: preprocess_def ex_externals_def ex_detector_simps binarize_white)

lemma roi_size_replicate: "roi_size (replicate h (replicate w p)) = h * w"
  by (simp add: roi_size_def sum_list_replicate)

lemma py_slice_replicate:
  "py_slice i j (replicate n p) = replicate (slice_index j n - slice_index i n) p"
  by (simp add: py_slice_def Let_def slice_index_def)

lemma crop_replicate:
  "crop (replicate h (replicate w p)) y1 y2 x1 x2 =
     replicate (slice_index y2 h - slice_index y1 h) (replicate (slice_index x2 w - slice_index x1 w) p)"
  by (simp add: crop_def py_slice_replicate)

lemma verify_ex1:
  "verify_head_circle ex_externals ex_detector (replicate 80 (replicate 80 0)) (60, 20) 35 50
     = Inr (False, None, (35, 0, 80, 20))"
  by (simp add: verify_head_circle_def head_box_def ex_detector_simps crop_replicate
      slice_index_def roi_size_replicate ex_externals_def)

lemma verify_ex2:
  "verify_head_circle ex_externals ex_detector (replicate 80 (replicate 80 0)) (20, 40) 35 50
     = Inr (True, Some (20, 15, 8), (0, 5, 45, 40))"
  by (simp add: verify_head_circle_def head_box_def ex_detector_simps crop_replicate
      slice_index_def roi_size_replicate ex_externals_def circles_abs_def)

lemma verify_ex3:
  "verify_head_circle ex_externals ex_detector (replicate 80 (replicate 80 0)) (40, 40) 35 50
     = Inr (True, Some (35, 15, 8), (15, 5, 65, 40))"
  by (simp add: verify_head_circle_def head_box_def ex_detector_simps crop_replicate
      slice_index_def roi_size_replicate ex_externals_def circles_abs_def)

lemma verify_ex4:
  "verify_head_circle ex_externals ex_detector (replicate 80 (replicate 80 0)) (60, 40) 35 50
     = Inr (True, Some (55, 15, 8), (35, 5, 80, 40))"
  by (simp add: verify_head_circle_def head_box_def ex_detector_simps crop_replicate
      slice_index_def roi_size_replicate ex_externals_def circles_abs_def)

lemma extract_ex:
  "x \<in> {20, 40, 60} \<Longrightarrow>
     extract_text_below ex_externals ex_detector (x, 40) = Inr (''User'', Some (0, 50, 80, 80))"
  by (auto simp: extract_text_below_def text_box_def ex_detector_simps crop_replicate
      slice_index_def roi_size_replicate ex_externals_def strip_def is_space_def)

lemma detect_ex:
  "detect_actors ex_externals ex_detector
     = Inr (2, [(20, 40), (60, 40)], [(1, ''''), (2, ''User''), (3, ''User''), (4, ''User'')])"
  by (simp add: detect_actors_def preprocess_ex find_actors_ex verify_ex1 verify_ex2 verify_ex3
      verify_ex4 extract_ex remove_near_duplicates_def dist_gt_def)

lemma detect_ex_named:
  "detect_actors ex_externals ex_detector = Inr (2, ex_final_actors, ex_text_results)"
  by (simp add: detect_ex ex_final_actors_def ex_text_results_def)


subsection \<open>The final actor list\<close>

lemma length_dedup_loop: "length (dedup_loop xs acc) \<le> length acc + length xs"
proof (induction xs arbitrary: acc)
  case Nil
  show ?case by simp
next
  case (Cons a xs)
  show ?case using Cons.IH [of "acc @ [a]"] Cons.IH [of acc] by auto
qed

lemma length_remove_near_duplicates: "length (remove_near_duplicates xs) \<le> length xs"
  using length_dedup_loop [of xs "[]"] by (simp add: remove_near_duplicates_def)

lemma verify_loop_calls:
  "verify_loop ext d binary idx actors verified text_results = Inr (v, t) \<Longrightarrow> p \<in> set actors \<Longrightarrow>
     (\<exists>res. verify_head_circle ext d binary p 35 50 = Inr res) \<and>
     (confirmed ext d binary p \<longrightarrow> (\<exists>tr. extract_text_below ext d p = Inr tr))"
proof (induction actors arbitrary: idx verified text_results)
  case Nil
  then show ?case by simp
next
  case (Cons q rest)
  show ?case
  proof (cases "verify_head_circle ext d binary q 35 50")
    case (Inl e)
    with Cons.prems show ?thesis by simp
  next
    case (Inr res)
    note vh = Inr
    obtain ok circle roi_box where res: "res = (ok, circle, roi_box)" by (cases res)
    show ?thesis
    proof (cases ok)
      case True
      show ?thesis
      proof (cases "extract_text_below ext d q")
        case (Inl e)
        with Cons.prems vh res True show ?thesis by simp
      next
        case (Inr tr)
        obtain cap text_roi where tr: "tr = (cap, text_roi)" by (cases tr)
        from Cons.prems have run:
          "verify_loop ext d binary (idx + 1) rest (verified @ [q]) (text_results @ [(idx + 1, cap)]) = Inr (v, t)"
          by (simp add: vh res True Inr tr)
        show ?thesis
        proof (cases "p = q")
          case True
          then show ?thesis using vh Inr by blast
        next
          case False
          with Cons.prems have "p \<in> set rest" by simp
          from Cons.IH [OF run this] show ?thesis .
        qed
      qed
    next
      case False
      from Cons.prems have run:
        "verify_loop ext d binary (idx + 1) rest verified (text_results @ [(idx + 1, '''')]) = Inr (v, t)"
        by (simp add: Inr res False)
      show ?thesis
      proof (cases "p = q")
        case True
        have "\<not> confirmed ext d binary q" using vh res False by (simp add: confirmed_def)
        with True vh show ?thesis by blast
      next
        case neq: False
        with Cons.prems have "p \<in> set rest" by simp
        from Cons.IH [OF run this] show ?thesis .
      qed
    qed
  qed
qed

lemma confirmed_iff:
  "confirmed ext d binary p = (\<exists>circle roi_box. verify_head_circle ext d binary p 35 50 = Inr (True, circle, roi_box))"
  by (auto simp: confirmed_def split: sum.splits)

text \<open>
  C2. In every run of \<^verbatim>\<open>detect_actors\<close> that returns, each final position is a
  template candidate whose head check succeeded, any two distinct final positions are
  strictly more than 25 px apart (squared distance above 625), and no position occurs twice.
\<close>

theorem detect_actors_final_positions:
  assumes "detect_actors ext d = Inr (n, final_actors, text_results)"
  shows "\<exists>binary actors.
           preprocess ext d = Inr binary \<and> find_actors_by_template ext binary = Inr actors \<and>
           (\<forall>p\<in>set final_actors. p \<in> set actors \<and>
              (\<exists>circle roi_box. verify_head_circle ext d binary p 35 50 = Inr (True, circle, roi_box))) \<and>
           (\<forall>a\<in>set final_actors. \<forall>b\<in>set final_actors.
              a \<noteq> b \<longrightarrow> (fst a - fst b)\<^sup>2 + (snd a - snd b)\<^sup>2 > 25\<^sup>2) \<and>
           distinct final_actors"
proof -
  from detect_actors_result [OF assms] obtain binary actors where
    b: "preprocess ext d = Inr binary" and a: "find_actors_by_template ext binary = Inr actors" and
    f: "final_actors = remove_near_duplicates (filter (confirmed ext d binary) actors)"
    by blast
  have far: "far_apart 25 final_actors"
    unfolding f by (rule remove_near_duplicates_far_apart)
  have sub: "set final_actors \<subseteq> set (filter (confirmed ext d binary) actors)"
    unfolding f by (rule remove_near_duplicates_subset)
  have 1: "\<forall>p\<in>set final_actors. p \<in> set actors \<and>
              (\<exists>circle roi_box. verify_head_circle ext d binary p 35 50 = Inr (True, circle, roi_box))"
    using sub by (auto simp: confirmed_iff)
  have 2: "\<forall>a\<in>set final_actors. \<forall>b\<in>set final_actors.
              a \<noteq> b \<longrightarrow> (fst a - fst b)\<^sup>2 + (snd a - snd b)\<^sup>2 > 25\<^sup>2"
    using far_apart_pairwise [OF far] by (simp add: dist_gt_def)
  have 3: "distinct final_actors"
    using far by (rule far_apart_distinct) simp
  from b a 1 2 3 show ?thesis by blast
qed

theorem detect_actors_final_positions_witness:
  "detect_actors ex_externals ex_detector
     = Inr (2, [(20, 40), (60, 40)], [(1, ''''), (2, ''User''), (3, ''User''), (4, ''User'')]) \<and>
   (\<exists>binary actors.
      preprocess ex_externals ex_detector = Inr binary \<and>
      find_actors_by_template ex_externals binary = Inr actors \<and>
      (\<forall>p\<in>set [(20, 40), (60, 40)]. p \<in> set actors \<and>
         (\<exists>circle roi_box. verify_head_circle ex_externals ex_detector binary p 35 50 = Inr (True, circle, roi_box))) \<and>
      (\<forall>a\<in>set [(20, 40), (60, 40)]. \<forall>b\<in>set [(20, 40), (60, 40)].
         a \<noteq> b \<longrightarrow> (fst a - fst b)\<^sup>2 + (snd a - snd b)\<^sup>2 > (25::int)\<^sup>2) \<and>
      distinct [(20, 40), (60, 40) :: point])"
  by (rule conjI [OF detect_ex detect_actors_final_positions [OF detect_ex]])


subsection \<open>The raw records\<close>

lemma preprocess_readtext: "preprocess (ext\<lparr>readtext := rt\<rparr>) d = preprocess ext d"
  by (simp add: preprocess_def)

lemma template_loop_readtext:
  "template_loop (ext\<lparr>readtext := rt\<rparr>) binary sizes actors = template_loop ext binary sizes actors"
  by (induction sizes arbitrary: actors) (simp_all split: sum.splits)

lemma find_actors_readtext:
  "find_actors_by_template (ext\<lparr>readtext := rt\<rparr>) binary = find_actors_by_template ext binary"
  by (simp add: find_actors_by_template_def template_loop_readtext)

lemma verify_head_circle_readtext:
  "verify_head_circle (ext\<lparr>readtext := rt\<rparr>) d binary p sh sw = verify_head_circle ext d binary p sh sw"
  by (simp add: verify_head_circle_def Let_def split: prod.splits)

lemma extract_text_below_readtext:
  "rt (caption_crop d p) = readtext ext (caption_crop d p) \<Longrightarrow>
     extract_text_below (ext\<lparr>readtext := rt\<rparr>) d p = extract_text_below ext d p"
  by (simp add: extract_text_below_def caption_crop_def Let_def split: prod.splits)

lemma verify_loop_readtext:
  "(\<forall>p\<in>set actors. confirmed ext d binary p \<longrightarrow> rt (caption_crop d p) = readtext ext (caption_crop d p)) \<Longrightarrow>
     verify_loop (ext\<lparr>readtext := rt\<rparr>) d binary idx actors verified text_results
       = verify_loop ext d binary idx actors verified text_results"
proof (induction actors arbitrary: idx verified text_results)
  case Nil
  show ?case by simp
next
  case (Cons q rest)
  from Cons.prems have rest:
    "\<forall>p\<in>set rest. confirmed ext d binary p \<longrightarrow> rt (caption_crop d p) = readtext ext (caption_crop d p)"
    by simp
  note IH = Cons.IH [OF rest]
  show ?case
  proof (cases "confirmed ext d binary q")
    case True
    with Cons.prems have "rt (caption_crop d q) = readtext ext (caption_crop d q)" by simp
    then have "extract_text_below (ext\<lparr>readtext := rt\<rparr>) d q = extract_text_below ext d q"
      by (rule extract_text_below_readtext)
    then show ?thesis
      by (simp add: verify_head_circle_readtext IH split: sum.splits prod.splits)
  next
    case False
    then show ?thesis
      by (auto simp: verify_head_circle_readtext IH confirmed_def split: sum.splits prod.splits)
  qed
qed

lemma detect_actors_readtext:
  assumes "preprocess ext d = Inr binary" "find_actors_by_template ext binary = Inr actors"
    and "\<forall>p\<in>set actors. confirmed ext d binary p \<longrightarrow> rt (caption_crop d p) = readtext ext (caption_crop d p)"
  shows "detect_actors (ext\<lparr>readtext := rt\<rparr>) d = detect_actors ext d"
  using assms
  by (simp add: detect_actors_def preprocess_readtext find_actors_readtext verify_loop_readtext)

text \<open>
  C1, as the specification states it, fails: in the worked run the record list has four
  records, one per template candidate, while the duplicate removal retains two
  candidates; record 1 belongs to a candidate whose head check failed and record 3 to a
  confirmed candidate that the duplicate removal dropped.
\<close>

theorem detect_actors_records_counterexample:
  "detect_actors ex_externals ex_detector
     = Inr (2, [(20, 40), (60, 40)], [(1, ''''), (2, ''User''), (3, ''User''), (4, ''User'')]) \<and>
   \<not> spec_records_follow_dedup [(20, 40), (60, 40)]
         [(1, ''''), (2, ''User''), (3, ''User''), (4, ''User'')]"
  by (simp add: detect_ex spec_records_follow_dedup_def)

text \<open>
  C1, amended. The raw record list is produced from all template candidates in detection
  order, before the duplicate removal: record \<open>i\<close> (from 0) has id \<open>i + 1\<close>, the record of
  a head-confirmed candidate carries the caption extracted for it, and every retained
  position is a head-confirmed candidate, so it has its record in the list.
\<close>

theorem detect_actors_records:
  assumes "detect_actors ext d = Inr (n, final_actors, text_results)"
  shows "\<exists>binary actors.
           preprocess ext d = Inr binary \<and> find_actors_by_template ext binary = Inr actors \<and>
           length text_results = length actors \<and>
           (\<forall>i<length actors. fst (text_results ! i) = int i + 1) \<and>
           (\<forall>i<length actors.
              (\<exists>circle roi_box. verify_head_circle ext d binary (actors ! i) 35 50 = Inr (True, circle, roi_box)) \<longrightarrow>
              (\<exists>text_roi. extract_text_below ext d (actors ! i) = Inr (snd (text_results ! i), text_roi))) \<and>
           (\<forall>p\<in>set final_actors. \<exists>i<length actors. actors ! i = p \<and>
              (\<exists>circle roi_box. verify_head_circle ext d binary p 35 50 = Inr (True, circle, roi_box)))"
proof -
  from detect_actors_result [OF assms] obtain binary actors v t where
    b: "preprocess ext d = Inr binary" and a: "find_actors_by_template ext binary = Inr actors" and
    l: "verify_loop ext d binary 0 actors [] [] = Inr (v, t)" and
    f: "final_actors = remove_near_duplicates (filter (confirmed ext d binary) actors)" and
    r: "text_results = map (\<lambda>(i, p). (i, caption ext d binary p)) (enumerate_from 1 actors)"
    by blast
  have len: "length text_results = length actors"
    by (simp add: r length_enumerate_from)
  have nth: "text_results ! i = (int i + 1, caption ext d binary (actors ! i))" if "i < length actors" for i
    using that by (simp add: r length_enumerate_from nth_enumerate_from)
  have ids: "\<forall>i<length actors. fst (text_results ! i) = int i + 1"
    by (simp add: nth)
  have caps: "\<forall>i<length actors.
              (\<exists>circle roi_box. verify_head_circle ext d binary (actors ! i) 35 50 = Inr (True, circle, roi_box)) \<longrightarrow>
              (\<exists>text_roi. extract_text_below ext d (actors ! i) = Inr (snd (text_results ! i), text_roi))"
  proof (intro allI impI)
    fix i
    assume i: "i < length actors"
      and "\<exists>circle roi_box. verify_head_circle ext d binary (actors ! i) 35 50 = Inr (True, circle, roi_box)"
    then have c: "confirmed ext d binary (actors ! i)" by (simp add: confirmed_iff)
    from i have "actors ! i \<in> set actors" by simp
    from verify_loop_calls [OF l this] c obtain tr where
      tr: "extract_text_below ext d (actors ! i) = Inr tr" by blast
    then have "snd (text_results ! i) = fst tr"
      by (simp add: nth [OF i] caption_def c split: prod.splits)
    with tr show "\<exists>text_roi. extract_text_below ext d (actors ! i) = Inr (snd (text_results ! i), text_roi)"
      by (cases tr) simp
  qed
  have sub: "set final_actors \<subseteq> set (filter (confirmed ext d binary) actors)"
    unfolding f by (rule remove_near_duplicates_subset)
  have fin: "\<forall>p\<in>set final_actors. \<exists>i<length actors. actors ! i = p \<and>
              (\<exists>circle roi_box. verify_head_circle ext d binary p 35 50 = Inr (True, circle, roi_box))"
  proof
    fix p
    assume "p \<in> set final_actors"
    with sub have "p \<in> set actors" and c: "confirmed ext d binary p" by auto
    then obtain i where "i < length actors" "actors ! i = p" by (auto simp: in_set_conv_nth)
    with c show "\<exists>i<length actors. actors ! i = p \<and>
              (\<exists>circle roi_box. verify_head_circle ext d binary p 35 50 = Inr (True, circle, roi_box))"
      by (auto simp: confirmed_iff)
  qed
  from b a len ids caps fin show ?thesis by blast
qed

theorem detect_actors_records_witness:
  "detect_actors ex_externals ex_detector
     = Inr (2, ex_final_actors, ex_text_results) \<and>
   (\<exists>binary actors.
           preprocess ex_externals ex_detector = Inr binary \<and> find_actors_by_template ex_externals binary = Inr actors \<and>
           length ex_text_results = length actors \<and>
           (\<forall>i<length actors. fst (ex_text_results ! i) = int i + 1) \<and>
           (\<forall>i<length actors.
              (\<exists>circle roi_box. verify_head_circle ex_externals ex_detector binary (actors ! i) 35 50 = Inr (True, circle, roi_box)) \<longrightarrow>
              (\<exists>text_roi. extract_text_below ex_externals ex_detector (actors ! i) = Inr (snd (ex_text_results ! i), text_roi))) \<and>
           (\<forall>p\<in>set ex_final_actors. \<exists>i<length actors. actors ! i = p \<and>
              (\<exists>circle roi_box. verify_head_circle ex_externals ex_detector binary p 35 50 = Inr (True, circle, roi_box))))"
  by (rule conjI [OF detect_ex_named detect_actors_records [OF detect_ex_named]])

text \<open>
  C10. The record list has exactly one pair per template candidate, with ids
  \<open>1, 2, \<dots>\<close> in detection order; a candidate whose head check failed gets the empty
  caption, and the run does not depend on what the text reader would answer on any
  region other than those of the confirmed candidates; the final count is the number
  of retained positions and never exceeds the number of records.
\<close>

theorem detect_actors_one_record_per_candidate:
  assumes "detect_actors ext d = Inr (n, final_actors, text_results)"
  shows "\<exists>binary actors.
           preprocess ext d = Inr binary \<and> find_actors_by_template ext binary = Inr actors \<and>
           length text_results = length actors \<and>
           map fst text_results = map (\<lambda>i. int i + 1) [0..<length actors] \<and>
           (\<forall>i<length actors.
              (\<exists>circle roi_box. verify_head_circle ext d binary (actors ! i) 35 50 = Inr (False, circle, roi_box)) \<longrightarrow>
              text_results ! i = (int i + 1, '''')) \<and>
           (\<forall>rt. (\<forall>p\<in>set actors.
                    (\<exists>circle roi_box. verify_head_circle ext d binary p 35 50 = Inr (True, circle, roi_box)) \<longrightarrow>
                    rt (caption_crop d p) = readtext ext (caption_crop d p)) \<longrightarrow>
                 detect_actors (ext\<lparr>readtext := rt\<rparr>) d = Inr (n, final_actors, text_results)) \<and>
           n = int (length final_actors) \<and> n \<le> int (length text_results)"
proof -
  from detect_actors_result [OF assms] obtain binary actors where
    b: "preprocess ext d = Inr binary" and a: "find_actors_by_template ext binary = Inr actors" and
    f: "final_actors = remove_near_duplicates (filter (confirmed ext d binary) actors)" and
    n: "n = int (length final_actors)" and
    r: "text_results = map (\<lambda>(i, p). (i, caption ext d binary p)) (enumerate_from 1 actors)"
    by blast
  have len: "length text_results = length actors"
    by (simp add: r length_enumerate_from)
  have nth: "text_results ! i = (int i + 1, caption ext d binary (actors ! i))" if "i < length actors" for i
    using that by (simp add: r length_enumerate_from nth_enumerate_from)
  have "map fst text_results = map fst (enumerate_from 1 actors)"
    by (simp add: r comp_def case_prod_beta)
  then have ids: "map fst text_results = map (\<lambda>i. int i + 1) [0..<length actors]"
    by (simp add: map_fst_enumerate_from add.commute)
  have empty: "\<forall>i<length actors.
              (\<exists>circle roi_box. verify_head_circle ext d binary (actors ! i) 35 50 = Inr (False, circle, roi_box)) \<longrightarrow>
              text_results ! i = (int i + 1, '''')"
    by (auto simp: nth caption_def confirmed_def)
  have indep: "\<forall>rt. (\<forall>p\<in>set actors.
                    (\<exists>circle roi_box. verify_head_circle ext d binary p 35 50 = Inr (True, circle, roi_box)) \<longrightarrow>
                    rt (caption_crop d p) = readtext ext (caption_crop d p)) \<longrightarrow>
                 detect_actors (ext\<lparr>readtext := rt\<rparr>) d = Inr (n, final_actors, text_results)"
  proof (intro allI impI)
    fix rt
    assume "\<forall>p\<in>set actors.
              (\<exists>circle roi_box. verify_head_circle ext d binary p 35 50 = Inr (True, circle, roi_box)) \<longrightarrow>
              rt (caption_crop d p) = readtext ext (caption_crop d p)"
    then have "\<forall>p\<in>set actors. confirmed ext d binary p \<longrightarrow> rt (caption_crop d p) = readtext ext (caption_crop d p)"
      by (simp add: confirmed_iff)
    from detect_actors_readtext [OF b a this] assms
    show "detect_actors (ext\<lparr>readtext := rt\<rparr>) d = Inr (n, final_actors, text_results)" by simp
  qed
  have "length final_actors \<le> length (filter (confirmed ext d binary) actors)"
    unfolding f by (rule length_remove_near_duplicates)
  also have "\<dots> \<le> length actors" by (rule length_filter_le)
  finally have le: "n \<le> int (length text_results)" by (simp add: n len)
  from b a len ids empty indep n le show ?thesis by blast
qed

theorem detect_actors_one_record_per_candidate_witness:
  "detect_actors ex_externals ex_detector
     = Inr (2, ex_final_actors, ex_text_results) \<and>
   (\<exists>binary actors.
           preprocess ex_externals ex_detector = Inr binary \<and> find_actors_by_template ex_externals binary = Inr actors \<and>
           length ex_text_results = length actors \<and>
           map fst ex_text_results = map (\<lambda>i. int i + 1) [0..<length actors] \<and>
           (\<forall>i<length actors.
              (\<exists>circle roi_box. verify_head_circle ex_externals ex_detector binary (actors ! i) 35 50 = Inr (False, circle, roi_box)) \<longrightarrow>
              ex_text_results ! i = (int i + 1, '''')) \<and>
           (\<forall>rt. (\<forall>p\<in>set actors.
                    (\<exists>circle roi_box. verify_head_circle ex_externals ex_detector binary p 35 50 = Inr (True, circle, roi_box)) \<longrightarrow>
                    rt (caption_crop ex_detector p) = readtext ex_externals (caption_crop ex_detector p)) \<longrightarrow>
                 detect_actors (ex_externals\<lparr>readtext := rt\<rparr>) ex_detector = Inr (2, ex_final_actors, ex_text_results)) \<and>
           2 = int (length ex_final_actors) \<and> 2 \<le> int (length ex_text_results))"
  by (rule conjI [OF detect_ex_named detect_actors_one_record_per_candidate [OF detect_ex_named]])


subsection \<open>The head check\<close>

lemma min_key_split:
  "\<exists>ys zs. best # cs = ys @ min_key key best cs # zs \<and>
           (\<forall>c\<in>set ys. key (min_key key best cs) < key c) \<and>
           (\<forall>c\<in>set zs. key (min_key key best cs) \<le> key c)"
proof (induction cs arbitrary: best)
  case Nil
  show ?case by (intro exI [of _ "[]"]) simp
next
  case (Cons c cs)
  show ?case
  proof (cases "key c < key best")
    case True
    then have m: "min_key key best (c # cs) = min_key key c cs" by simp
    from Cons.IH [of c] obtain ys zs where
      eq: "c # cs = ys @ min_key key c cs # zs" and
      lt: "\<forall>x\<in>set ys. key (min_key key c cs) < key x" and
      le: "\<forall>x\<in>set zs. key (min_key key c cs) \<le> key x" by blast
    have "c \<in> set (ys @ min_key key c cs # zs)" using eq [symmetric] by simp
    with lt le have "key (min_key key c cs) \<le> key c" by auto
    with True have b: "key (min_key key c cs) < key best" by simp
    have 1: "best # c # cs = (best # ys) @ min_key key c cs # zs" using eq by simp
    have 2: "\<forall>x\<in>set (best # ys). key (min_key key c cs) < key x" using lt b by simp
    show ?thesis unfolding m using 1 2 le by blast
  next
    case False
    then have m: "min_key key best (c # cs) = min_key key best cs" by simp
    from Cons.IH [of best] obtain ys zs where
      eq: "best # cs = ys @ min_key key best cs # zs" and
      lt: "\<forall>x\<in>set ys. key (min_key key best cs) < key x" and
      le: "\<forall>x\<in>set zs. key (min_key key best cs) \<le> key x" by blast
    show ?thesis
    proof (cases ys)
      case Nil
      from eq have "best # cs = min_key key best cs # zs" unfolding Nil append_Nil .
      then have mb: "min_key key best cs = best" and z: "zs = cs" by (metis list.inject)+
      have 1: "best # c # cs = [] @ min_key key best cs # (c # cs)" using mb by simp
      have 2: "\<forall>x\<in>set (c # cs). key (min_key key best cs) \<le> key x" using le False mb z by auto
      have 3: "\<forall>x\<in>set ([]::'a list). key (min_key key best cs) < key x" by simp
      show ?thesis unfolding m using 1 2 3 by blast
    next
      case (Cons y ys')
      from eq have "best # cs = y # (ys' @ min_key key best cs # zs)" unfolding Cons append_Cons .
      then have y: "y = best" and cs: "cs = ys' @ min_key key best cs # zs" by (metis list.inject)+
      from lt Cons y have "key (min_key key best cs) < key best" by simp
      with False have c: "key (min_key key best cs) < key c" by simp
      have 1: "best # c # cs = (best # c # ys') @ min_key key best cs # zs" using cs by simp
      have 2: "\<forall>x\<in>set (best # c # ys'). key (min_key key best cs) < key x"
        using lt Cons y c by simp
      show ?thesis unfolding m using 1 2 le by blast
    qed
  qed
qed

lemma min_key_first:
  "\<exists>i<length (best # cs). (best # cs) ! i = min_key key best cs \<and>
     (\<forall>j<length (best # cs). key (min_key key best cs) \<le> key ((best # cs) ! j)) \<and>
     (\<forall>j<i. key (min_key key best cs) < key ((best # cs) ! j))"
proof -
  from min_key_split [of best cs key] obtain ys zs where
    eq: "best # cs = ys @ min_key key best cs # zs" and
    lt: "\<forall>x\<in>set ys. key (min_key key best cs) < key x" and
    le: "\<forall>x\<in>set zs. key (min_key key best cs) \<le> key x" by blast
  let ?m = "min_key key best cs"
  have i: "length ys < length (best # cs)" by (subst eq) simp
  have at: "(best # cs) ! length ys = ?m" by (subst eq) simp
  have all: "\<forall>j<length (best # cs). key ?m \<le> key ((best # cs) ! j)"
  proof (intro allI impI)
    fix j assume "j < length (best # cs)"
    then have "(best # cs) ! j \<in> set (best # cs)" by (rule nth_mem)
    then have "(best # cs) ! j \<in> set ys \<union> {?m} \<union> set zs" by (subst (asm) (2) eq) auto
    with lt le show "key ?m \<le> key ((best # cs) ! j)" by auto
  qed
  have before: "\<forall>j<length ys. key ?m < key ((best # cs) ! j)"
  proof (intro allI impI)
    fix j assume j: "j < length ys"
    then have "(best # cs) ! j = ys ! j" by (subst eq) (simp add: nth_append)
    with lt j show "key ?m < key ((best # cs) ! j)" by simp
  qed
  from i at all before show ?thesis by blast
qed

lemma verify_ex_circles:
  "verify_head_circle ex_circles ex_detector (replicate 80 (replicate 80 0)) (40, 40) 35 50
     = Inr (True, Some (43, 17, 6), (15, 5, 65, 40))"
  by (simp add: verify_head_circle_def head_box_def ex_detector_simps crop_replicate
      slice_index_def roi_size_replicate ex_circles_def ex_externals_def circles_abs_def)

text \<open>
  C5. Whenever the head check confirms a candidate \<open>(x, y)\<close>, the circle it returns lies
  above the candidate (\<open>cy < y\<close>) and within 25 px of its column (\<open>\<bar>cx - x\<bar> < 25\<close>);
  among the detected circles that pass this filter it has the least \<open>\<bar>cx - x\<bar>\<close>, and it
  is the first of them with that value.
\<close>

theorem verify_head_circle_best:
  assumes "verify_head_circle ext d binary (x, y) search_height search_width = Inr (True, head, roi_box)"
  shows "\<exists>x1 y1 x2 y2 circles cx cy r.
           roi_box = (x1, y1, x2, y2) \<and>
           HoughCircles ext (crop binary y1 y2 x1 x2) = Inr (Some circles) \<and>
           head = Some (cx, cy, r) \<and> cy < y \<and> \<bar>cx - x\<bar> < 25 \<and>
           (let passing = filter (\<lambda>(cx, cy, r). cy < y \<and> \<bar>cx - x\<bar> < 25)
                            (map (\<lambda>(cx, cy, r). (x1 + uint cx, y1 + uint cy, uint r)) circles)
            in \<exists>i<length passing. passing ! i = (cx, cy, r) \<and>
                 (\<forall>j<length passing. \<bar>cx - x\<bar> \<le> \<bar>fst (passing ! j) - x\<bar>) \<and>
                 (\<forall>j<i. \<bar>cx - x\<bar> < \<bar>fst (passing ! j) - x\<bar>))"
proof -
  obtain x1 y1 x2 y2 where hb: "head_box d (x, y) search_height search_width = (x1, y1, x2, y2)"
    by (cases "head_box d (x, y) search_height search_width") auto
  let ?roi = "crop binary y1 y2 x1 x2"
  let ?key = "\<lambda>c :: circle. \<bar>fst c - x\<bar>"
  from assms hb have nz: "roi_size ?roi \<noteq> 0"
    by (auto simp: verify_head_circle_def Let_def split: if_splits)
  from assms hb nz obtain circles where hc: "HoughCircles ext ?roi = Inr (Some circles)"
    by (auto simp: verify_head_circle_def Let_def split: sum.splits option.splits)
  let ?passing = "circles_abs (x, y) x1 y1 circles"
  from assms hb nz hc obtain c cs where pc: "?passing = c # cs"
    by (auto simp: verify_head_circle_def Let_def split: list.splits)
  from assms hb nz hc pc have head: "head = Some (min_key ?key c cs)" and box: "roi_box = (x1, y1, x2, y2)"
    by (auto simp: verify_head_circle_def Let_def)
  obtain cx cy r where m: "min_key ?key c cs = (cx, cy, r)"
    by (cases "min_key ?key c cs") auto
  from min_key_first [of c cs ?key] obtain i where
    i: "i < length ?passing" and at: "?passing ! i = (cx, cy, r)" and
    all: "\<forall>j<length ?passing. \<bar>cx - x\<bar> \<le> \<bar>fst (?passing ! j) - x\<bar>" and
    before: "\<forall>j<i. \<bar>cx - x\<bar> < \<bar>fst (?passing ! j) - x\<bar>"
    unfolding pc m by auto
  from i at have "(cx, cy, r) \<in> set ?passing" by (metis nth_mem)
  then have ok: "cy < y" "\<bar>cx - x\<bar> < 25" by (auto simp: circles_abs_def)
  have unf: "?passing = filter (\<lambda>(cx, cy, r). cy < y \<and> \<bar>cx - x\<bar> < 25)
                            (map (\<lambda>(cx, cy, r). (x1 + uint cx, y1 + uint cy, uint r)) circles)"
    by (simp add: circles_abs_def)
  from i at all before have
    "\<exists>i<length ?passing. ?passing ! i = (cx, cy, r) \<and>
                 (\<forall>j<length ?passing. \<bar>cx - x\<bar> \<le> \<bar>fst (?passing ! j) - x\<bar>) \<and>
                 (\<forall>j<i. \<bar>cx - x\<bar> < \<bar>fst (?passing ! j) - x\<bar>)" by blast
  then have "let passing = filter (\<lambda>(cx, cy, r). cy < y \<and> \<bar>cx - x\<bar> < 25)
                            (map (\<lambda>(cx, cy, r). (x1 + uint cx, y1 + uint cy, uint r)) circles)
            in \<exists>i<length passing. passing ! i = (cx, cy, r) \<and>
                 (\<forall>j<length passing. \<bar>cx - x\<bar> \<le> \<bar>fst (passing ! j) - x\<bar>) \<and>
                 (\<forall>j<i. \<bar>cx - x\<bar> < \<bar>fst (passing ! j) - x\<bar>)"
    unfolding Let_def unf [symmetric] .
  with box hc head m ok show ?thesis by blast
qed

theorem verify_head_circle_best_witness:
  "verify_head_circle ex_circles ex_detector (replicate 80 (replicate 80 0)) (40, 40) 35 50
     = Inr (True, Some (43, 17, 6), (15, 5, 65, 40)) \<and>
   (\<exists>x1 y1 x2 y2 circles cx cy r.
           (15, 5, 65, 40) = (x1, y1, x2, y2) \<and>
           HoughCircles ex_circles (crop (replicate 80 (replicate 80 0)) y1 y2 x1 x2) = Inr (Some circles) \<and>
           Some (43, 17, 6) = Some (cx, cy, r) \<and> cy < 40 \<and> \<bar>cx - 40\<bar> < 25 \<and>
           (let passing = filter (\<lambda>(cx, cy, r). cy < 40 \<and> \<bar>cx - 40\<bar> < 25)
                            (map (\<lambda>(cx, cy, r). (x1 + uint cx, y1 + uint cy, uint r)) circles)
            in \<exists>i<length passing. passing ! i = (cx, cy, r) \<and>
                 (\<forall>j<length passing. \<bar>cx - 40\<bar> \<le> \<bar>fst (passing ! j) - 40\<bar>) \<and>
                 (\<forall>j<i. \<bar>cx - 40\<bar> < \<bar>fst (passing ! j) - 40\<bar>)))"
  by (rule conjI [OF verify_ex_circles verify_head_circle_best [OF verify_ex_circles]])


subsection \<open>The template matcher\<close>

lemma where_row_bounds: "p \<in> set (where_row r c bs) \<Longrightarrow> snd p = r \<and> c \<le> fst p"
  by (induction bs arbitrary: c) (fastforce split: if_splits)+

lemma where_row_sorted: "sorted_wrt raster_before (where_row r c bs)"
proof (induction bs arbitrary: c)
  case Nil
  show ?case by simp
next
  case (Cons b bs)
  have "raster_before (c, r) p" if "p \<in> set (where_row r (c + 1) bs)" for p
    using where_row_bounds [OF that] by (simp add: raster_before_def)
  with Cons.IH [of "c + 1"] show ?case by (simp add: sorted_wrt_append)
qed

lemma where_rows_bounds: "p \<in> set (where_rows r rows) \<Longrightarrow> r \<le> snd p"
proof (induction rows arbitrary: r)
  case Nil
  then show ?case by simp
next
  case (Cons row rows)
  from Cons.prems have "p \<in> set (where_row r 0 row) \<or> p \<in> set (where_rows (r + 1) rows)" by simp
  then show ?case
  proof
    assume "p \<in> set (where_row r 0 row)"
    from where_row_bounds [OF this] show ?thesis by simp
  next
    assume "p \<in> set (where_rows (r + 1) rows)"
    from Cons.IH [OF this] show ?thesis by simp
  qed
qed

lemma where_rows_sorted: "sorted_wrt raster_before (where_rows r rows)"
proof (induction rows arbitrary: r)
  case Nil
  show ?case by simp
next
  case (Cons row rows)
  have "raster_before p q" if "p \<in> set (where_row r 0 row)" "q \<in> set (where_rows (r + 1) rows)" for p q
    using where_row_bounds [OF that(1)] where_rows_bounds [OF that(2)] by (simp add: raster_before_def)
  with Cons.IH [of "r + 1"] where_row_sorted [of r 0 row] show ?case
    by (simp add: sorted_wrt_append)
qed

lemma np_where_raster: "sorted_wrt raster_before (np_where hits)"
  by (simp add: np_where_def where_rows_sorted)

lemma add_matches_foldl:
  "add_matches tsize pts actors
     = foldl spec_accept actors (map (\<lambda>pt. (fst pt + tsize div 2, snd pt + tsize div 2)) pts)"
  by (induction pts arbitrary: actors) (simp_all add: spec_accept_def Let_def list_all_iff)

lemma spec_accept_far: "far_apart 15 acc \<Longrightarrow> far_apart 15 (spec_accept acc c)"
  by (simp add: spec_accept_def far_apart_snoc list_all_iff)

lemma foldl_spec_accept_far: "far_apart 15 acc \<Longrightarrow> far_apart 15 (foldl spec_accept acc cs)"
  by (induction cs arbitrary: acc) (simp_all add: spec_accept_far)

lemma template_loop_foldl:
  "template_loop ext binary sizes actors = Inr res \<Longrightarrow>
     \<exists>hs. map (matchTemplate_ge ext binary) sizes = map Inr hs \<and>
          res = foldl spec_accept actors (concat (map (\<lambda>(tsize, hits). centers tsize hits) (zip sizes hs)))"
proof (induction sizes arbitrary: actors)
  case Nil
  then show ?case by simp
next
  case (Cons tsize sizes)
  from Cons.prems obtain hits where h: "matchTemplate_ge ext binary tsize = Inr hits"
    by (cases "matchTemplate_ge ext binary tsize") simp_all
  with Cons.prems have "template_loop ext binary sizes (add_matches tsize (np_where hits) actors) = Inr res"
    by simp
  from Cons.IH [OF this] obtain hs where
    hs: "map (matchTemplate_ge ext binary) sizes = map Inr hs" and
    res: "res = foldl spec_accept (add_matches tsize (np_where hits) actors)
                  (concat (map (\<lambda>(tsize, hits). centers tsize hits) (zip sizes hs)))"
    by blast
  have 1: "map (matchTemplate_ge ext binary) (tsize # sizes) = map Inr (hits # hs)"
    using h hs by simp
  have 2: "res = foldl spec_accept actors
             (concat (map (\<lambda>(tsize, hits). centers tsize hits) (zip (tsize # sizes) (hits # hs))))"
    using res by (simp add: add_matches_foldl centers_def)
  from 1 2 show ?case by blast
qed

text \<open>
  C6. Any two distinct candidates returned by the template matcher are strictly more
  than 15 px apart (squared distance above 225), and none occurs twice. The list is
  built by the acceptance rule, a centre joining only if it is farther than 15 px from
  every candidate accepted before it, applied from the empty list to the glyph centres
  of the sizes 40, 50, 60, 70, 80 in this order, each size's locations in raster order.
\<close>

theorem find_actors_by_template_separated:
  assumes "find_actors_by_template ext binary = Inr actors"
  shows "(\<forall>a\<in>set actors. \<forall>b\<in>set actors.
            a \<noteq> b \<longrightarrow> (fst a - fst b)\<^sup>2 + (snd a - snd b)\<^sup>2 > 15\<^sup>2) \<and>
         distinct actors \<and>
         (\<exists>hs. map (matchTemplate_ge ext binary) [40, 50, 60, 70, 80] = map Inr hs \<and>
               (\<forall>hits\<in>set hs. sorted_wrt raster_before (np_where hits)) \<and>
               actors = foldl spec_accept []
                          (concat (map (\<lambda>(tsize, hits). centers tsize hits) (zip [40, 50, 60, 70, 80] hs))))"
proof -
  from assms have run: "template_loop ext binary [40, 50, 60, 70, 80] [] = Inr actors"
    by (simp add: find_actors_by_template_def template_sizes_def)
  from template_loop_foldl [OF run] obtain hs where
    hs: "map (matchTemplate_ge ext binary) [40, 50, 60, 70, 80] = map Inr hs" and
    res: "actors = foldl spec_accept []
            (concat (map (\<lambda>(tsize, hits). centers tsize hits) (zip [40, 50, 60, 70, 80] hs)))"
    by blast
  have far: "far_apart 15 actors"
    unfolding res by (rule foldl_spec_accept_far) simp
  have 1: "\<forall>a\<in>set actors. \<forall>b\<in>set actors.
            a \<noteq> b \<longrightarrow> (fst a - fst b)\<^sup>2 + (snd a - snd b)\<^sup>2 > 15\<^sup>2"
    using far_apart_pairwise [OF far] by (simp add: dist_gt_def)
  have 2: "distinct actors" using far by (rule far_apart_distinct) simp
  have 3: "\<forall>hits\<in>set hs. sorted_wrt raster_before (np_where hits)"
    by (simp add: np_where_raster)
  from 1 2 3 hs res show ?thesis by blast
qed

theorem find_actors_by_template_separated_witness:
  "find_actors_by_template ex_externals (replicate 80 (replicate 80 0))
     = Inr [(60, 20), (20, 40), (40, 40), (60, 40)] \<and>
   (fst ((20, 40) :: point) - fst ((40, 40) :: point))\<^sup>2 + (snd ((20, 40) :: point) - snd ((40, 40) :: point))\<^sup>2 > 15\<^sup>2 \<and>
   distinct [(60, 20), (20, 40), (40, 40), (60, 40) :: point] \<and>
   (\<exists>hs. map (matchTemplate_ge ex_externals (replicate 80 (replicate 80 0))) [40, 50, 60, 70, 80] = map Inr hs \<and>
         (\<forall>hits\<in>set hs. sorted_wrt raster_before (np_where hits)) \<and>
         [(60, 20), (20, 40), (40, 40), (60, 40)] = foldl spec_accept []
                    (concat (map (\<lambda>(tsize, hits). centers tsize hits) (zip [40, 50, 60, 70, 80] hs))))"
proof -
  note sep = find_actors_by_template_separated [OF find_actors_ex]
  have mem: "((20, 40) :: point) \<in> set [(60, 20), (20, 40), (40, 40), (60, 40)]"
    "((40, 40) :: point) \<in> set [(60, 20), (20, 40), (40, 40), (60, 40)]"
    "((20, 40) :: point) \<noteq> (40, 40)"
    by simp_all
  from sep mem have
    "(fst ((20, 40) :: point) - fst ((40, 40) :: point))\<^sup>2 + (snd ((20, 40) :: point) - snd ((40, 40) :: point))\<^sup>2 > 15\<^sup>2"
    by blast
  with sep find_actors_ex show ?thesis by blast
qed


subsection \<open>Binarization\<close>

lemma threshold_binary_fixed:
  assumes "is_binary_mask m"
  shows "threshold_binary m = m"
proof -
  have "map (\<lambda>p. if p > 50 then 255 else 0) row = row" if "row \<in> set m" for row :: "8 word list"
  proof (rule map_idI)
    fix p assume "p \<in> set row"
    with assms that have "p = 0 \<or> p = 255" by (auto simp: is_binary_mask_def list_all_iff)
    then show "(if p > 50 then 255 else 0) = p" by auto
  qed
  then show ?thesis unfolding threshold_binary_def by (rule map_idI)
qed

text \<open>
  C7, as the specification states it, fails. The mask \<^verbatim>\<open>[[255, 255, 0]]\<close> has all pixels
  in \<open>{0, 255}\<close> and is what the binarizer itself returns for the dark image
  \<^verbatim>\<open>[[100, 100, 0]]\<close> (bright strokes, nothing inverted); binarizing it again inverts it,
  because its mean exceeds 127.
\<close>

theorem binarize_counterexample:
  "is_binary_mask [[255, 255, 0]] \<and> binarize [[100, 100, 0]] = [[255, 255, 0]] \<and>
   binarize [[255, 255, 0]] = [[0, 0, 255]] \<and> binarize [[255, 255, 0]] \<noteq> [[255, 255, 0]]"
  by (simp add: binarize_def mean_gt_127_def invert_def threshold_binary_def is_binary_mask_def)

text \<open>
  C7, amended. For every mask whose pixels all lie in \<open>{0, 255}\<close> and whose mean intensity
  does not exceed 127 (so that the polarity test does not invert it), the binarization
  step returns the mask unchanged.
\<close>

theorem binarize_fixed:
  "is_binary_mask m \<Longrightarrow> \<not> mean_gt_127 m \<Longrightarrow> binarize m = m"
  by (simp add: binarize_def threshold_binary_fixed)

theorem binarize_fixed_witness:
  "is_binary_mask [[0, 255, 0], [0, 0, 0]] \<and> \<not> mean_gt_127 [[0, 255, 0], [0, 0, 0]] \<and>
   binarize [[0, 255, 0], [0, 0, 0]] = [[0, 255, 0], [0, 0, 0]]"
proof -
  have 1: "is_binary_mask [[0, 255, 0], [0, 0, 0]]" by (simp add: is_binary_mask_def)
  have 2: "\<not> mean_gt_127 [[0, 255, 0], [0, 0, 0]]" by (simp add: mean_gt_127_def)
  from 1 2 binarize_fixed [OF 1 2] show ?thesis by simp
qed

subsection \<open>Regions of zero area\<close>

text \<open>
  C9. When the head region of a candidate has zero area, the head check returns
  \<^verbatim>\<open>(False, None, box)\<close>, and when its caption region has zero area, the caption
  extraction returns the empty string; both are normal results, whatever the circle
  detector or the text reader would do (neither is called).
\<close>

theorem zero_area_roi_not_found:
  "(roi_size (case head_box d actor_pos search_height search_width of
                (x1, y1, x2, y2) \<Rightarrow> crop binary y1 y2 x1 x2) = 0 \<longrightarrow>
      verify_head_circle ext d binary actor_pos search_height search_width
        = Inr (False, None, head_box d actor_pos search_height search_width)) \<and>
   (roi_size (caption_crop d actor_pos) = 0 \<longrightarrow>
      extract_text_below ext d actor_pos = Inr ('''', None))"
  by (auto simp: verify_head_circle_def extract_text_below_def caption_crop_def Let_def
      split: prod.splits)

theorem zero_area_roi_not_found_witness:
  "(roi_size (case head_box ex_detector (40, 0) 35 50 of
                (x1, y1, x2, y2) \<Rightarrow> crop (replicate 80 (replicate 80 (0 :: 8 word))) y1 y2 x1 x2) = 0 \<and>
      verify_head_circle (ex_externals\<lparr>HoughCircles := \<lambda>roi. Inl Cv2Error\<rparr>) ex_detector
          (replicate 80 (replicate 80 0)) (40, 0) 35 50
        = Inr (False, None, (15, 0, 65, 0))) \<and>
   (roi_size (caption_crop ex_detector (40, 75)) = 0 \<and>
      extract_text_below (ex_externals\<lparr>readtext := \<lambda>roi. Inl OcrError\<rparr>) ex_detector (40, 75)
        = Inr ('''', None))"
proof -
  have 1: "roi_size (case head_box ex_detector (40, 0) 35 50 of
                (x1, y1, x2, y2) \<Rightarrow> crop (replicate 80 (replicate 80 (0 :: 8 word))) y1 y2 x1 x2) = 0"
    by (simp add: head_box_def ex_detector_simps crop_replicate slice_index_def roi_size_def)
  have 2: "roi_size (caption_crop ex_detector (40, 75)) = 0"
    by (simp add: caption_crop_def text_box_def ex_detector_simps crop_replicate slice_index_def
        roi_size_def)
  have 3: "head_box ex_detector (40, 0) 35 50 = (15, 0, 65, 0)"
    by (simp add: head_box_def ex_detector_simps)
  from 1 2 3
    zero_area_roi_not_found [where d = ex_detector and actor_pos = "(40, 0)"
      and search_height = 35 and search_width = 50 and binary = "replicate 80 (replicate 80 0)"
      and ext = "ex_externals\<lparr>HoughCircles := \<lambda>roi. Inl Cv2Error\<rparr>"]
    zero_area_roi_not_found [where d = ex_detector and actor_pos = "(40, 75)"
      and search_height = 35 and search_width = 50 and binary = "replicate 80 (replicate 80 0)"
      and ext = "ex_externals\<lparr>readtext := \<lambda>roi. Inl OcrError\<rparr>"]
  show ?thesis by simp
qed

subsection \<open>The caption region\<close>

text \<open>
  C4. In a 200 by 200 image the caption region of the candidate \<open>(100, 50)\<close> is the box
  \<^verbatim>\<open>(x1, y1, x2, y2) = (20, 60, 180, 130)\<close>: it starts 10 px below the candidate and is
  160 px wide, centred on \<open>x\<close>, but it is 70 rows high, not the 80 of \<^verbatim>\<open>roi_h\<close>, since
  the lower bound is \<^verbatim>\<open>y + roi_h\<close> while the upper one is \<^verbatim>\<open>y + 10\<close>.
\<close>

theorem caption_crop_height:
  "text_box (new_detector (replicate 200 (replicate 200 (255, 255, 255)))) (100, 50)
     = (20, 60, 180, 130) \<and>
   caption_crop (new_detector (replicate 200 (replicate 200 (255, 255, 255)))) (100, 50)
     = replicate 70 (replicate 160 (255, 255, 255)) \<and>
   extract_text_below ex_externals (new_detector (replicate 200 (replicate 200 (255, 255, 255)))) (100, 50)
     = Inr (''User'', Some (20, 60, 180, 130))"
  by (simp add: caption_crop_def extract_text_below_def text_box_def new_detector_replicate
      crop_replicate slice_index_def roi_size_replicate ex_externals_def strip_def is_space_def)

end
